theory Spec2Isabelle
  imports Main "HOL-Library.AList"
begin

section \<open>The in-memory rate limiter\<close>

text \<open>
  A shallow embedding of the rate limiting utility (\<^verbatim>\<open>rate-limit\<close>, exported as
  \<^verbatim>\<open>rateLimitCheck\<close>, \<^verbatim>\<open>getRateLimitRemaining\<close> and \<^verbatim>\<open>RATE_LIMIT_CONFIG\<close>).
  The module keeps two pieces of mutable state, the \<^verbatim>\<open>rateLimitStore\<close> map and the
  \<^verbatim>\<open>cleanupTimer\<close> handle; they are passed explicitly. \<^verbatim>\<open>Date.now()\<close> is the
  argument \<open>now\<close>, in milliseconds.
\<close>

subsection \<open>JavaScript values that occur in the module\<close>

text \<open>
  Counts and timestamps are JavaScript numbers that hold integers; they are modelled by
  \<open>int\<close>. Reading a field that an object does not have gives \<^verbatim>\<open>undefined\<close>, and
  arithmetic on \<^verbatim>\<open>undefined\<close> gives \<^verbatim>\<open>NaN\<close>; both can reach the store and the
  results when the category is not a key of the policy table, so they are values here.
\<close>

datatype jsval = Num int | NaN | Undef

text \<open>\<^verbatim>\<open>a > b\<close>: false as soon as one side is not a number.\<close>

fun js_gt :: "jsval \<Rightarrow> jsval \<Rightarrow> bool" where
  "js_gt (Num a) (Num b) = (a > b)"
| "js_gt _ _ = False"

text \<open>\<^verbatim>\<open>a + b\<close> and \<^verbatim>\<open>a - b\<close> on numbers and \<^verbatim>\<open>undefined\<close>.\<close>

fun js_add :: "jsval \<Rightarrow> jsval \<Rightarrow> jsval" where
  "js_add (Num a) (Num b) = Num (a + b)"
| "js_add _ _ = NaN"

fun js_sub :: "jsval \<Rightarrow> jsval \<Rightarrow> jsval" where
  "js_sub (Num a) (Num b) = Num (a - b)"
| "js_sub _ _ = NaN"

text \<open>\<^verbatim>\<open>Math.max(a, b)\<close>.\<close>

fun math_max :: "jsval \<Rightarrow> jsval \<Rightarrow> jsval" where
  "math_max (Num a) (Num b) = Num (max a b)"
| "math_max _ _ = NaN"

datatype error = TypeError

subsection \<open>Configuration\<close>

record config =
  maxRequests :: int
  windowMs :: int

text \<open>
  The policy table is an object literal: its own properties, in the order written. The
  functions below take the table as their first argument, so that statements can range
  over policies; the table of the module is \<open>RATE_LIMIT_CONFIG\<close>.
\<close>

type_synonym policy_table = "(string \<times> config) list"

definition RATE_LIMIT_CONFIG :: policy_table where
  "RATE_LIMIT_CONFIG =
     [(''default'', \<lparr>maxRequests = 100, windowMs = 15 * 60 * 1000\<rparr>),
      (''auth'', \<lparr>maxRequests = 20, windowMs = 15 * 60 * 1000\<rparr>),
      (''booking'', \<lparr>maxRequests = 50, windowMs = 15 * 60 * 1000\<rparr>)]"

text \<open>
  \<^verbatim>\<open>RATE_LIMIT_CONFIG[category]\<close> is a property read on a plain object. For a key of
  the table it is the policy. For a property name that every object inherits from
  \<^verbatim>\<open>Object.prototype\<close> it is a function (or the prototype itself), which has neither
  \<^verbatim>\<open>maxRequests\<close> nor \<^verbatim>\<open>windowMs\<close>. For any other string it is \<^verbatim>\<open>undefined\<close>.
\<close>

datatype config_value = Policy config | Inherited | Undefined

definition object_prototype_keys :: "string list" where
  "object_prototype_keys =
     [''constructor'', ''hasOwnProperty'', ''isPrototypeOf'', ''propertyIsEnumerable'',
      ''toLocaleString'', ''toString'', ''valueOf'', ''__proto__'',
      ''__defineGetter__'', ''__defineSetter__'', ''__lookupGetter__'', ''__lookupSetter__'']"

definition get_config :: "policy_table \<Rightarrow> string \<Rightarrow> config_value" where
  "get_config cfg category =
     (case map_of cfg category of
        Some p \<Rightarrow> Policy p
      | None \<Rightarrow> if category \<in> set object_prototype_keys then Inherited else Undefined)"

text \<open>
  \<^verbatim>\<open>config.maxRequests\<close> and \<^verbatim>\<open>config.windowMs\<close>: a field read on \<^verbatim>\<open>undefined\<close>
  throws a TypeError, a field read on an object without the field is \<^verbatim>\<open>undefined\<close>.
\<close>

fun get_maxRequests :: "config_value \<Rightarrow> error + jsval" where
  "get_maxRequests (Policy p) = Inr (Num (maxRequests p))"
| "get_maxRequests Inherited = Inr Undef"
| "get_maxRequests Undefined = Inl TypeError"

fun get_windowMs :: "config_value \<Rightarrow> error + jsval" where
  "get_windowMs (Policy p) = Inr (Num (windowMs p))"
| "get_windowMs Inherited = Inr Undef"
| "get_windowMs Undefined = Inl TypeError"

subsection \<open>The store\<close>

record RateLimitEntry =
  count :: int
  resetTime :: jsval

text \<open>
  \<^verbatim>\<open>rateLimitStore\<close> is a \<^verbatim>\<open>Map<string, RateLimitEntry>\<close>: an association list in
  insertion order. \<^verbatim>\<open>get\<close> is \<open>map_of\<close>, \<^verbatim>\<open>set\<close> is \<open>AList.update\<close> (in place for
  a key that is present, at the end otherwise), \<^verbatim>\<open>delete\<close> is \<open>AList.delete\<close>. Every
  \<^verbatim>\<open>set\<close> stores a fresh object, so no two keys share an entry and an entry can be held
  by value.
\<close>

type_synonym store = "(string \<times> RateLimitEntry) list"

record module_state =
  rateLimitStore :: store
  cleanupTimer :: bool

definition initial_state :: module_state where
  "initial_state = \<lparr>rateLimitStore = [], cleanupTimer = False\<rparr>"

subsection \<open>Cleanup\<close>

text \<open>
  The callback registered by \<^verbatim>\<open>startCleanup\<close>: one pass over the entries of the map,
  deleting a key when \<^verbatim>\<open>now > entry.resetTime\<close>. Deleting from a \<^verbatim>\<open>Map\<close> while
  iterating over it does not disturb the visit of the other entries.
\<close>

fun cleanup_loop :: "int \<Rightarrow> (string \<times> RateLimitEntry) list \<Rightarrow> store \<Rightarrow> store" where
  "cleanup_loop now [] s = s"
| "cleanup_loop now ((key, entry) # rest) s =
     cleanup_loop now rest
       (if js_gt (Num now) (resetTime entry) then AList.delete key s else s)"

definition cleanup :: "int \<Rightarrow> module_state \<Rightarrow> module_state" where
  "cleanup now st =
     st\<lparr>rateLimitStore := cleanup_loop now (rateLimitStore st) (rateLimitStore st)\<rparr>"

text \<open>\<^verbatim>\<open>startCleanup\<close> registers the interval timer once.\<close>

definition startCleanup :: "module_state \<Rightarrow> module_state" where
  "startCleanup st = (if cleanupTimer st then st else st\<lparr>cleanupTimer := True\<rparr>)"

subsection \<open>rateLimitCheck and getRateLimitRemaining\<close>

definition make_key :: "string \<Rightarrow> string \<Rightarrow> string" where
  "make_key category identifier = category @ '':'' @ identifier"

text \<open>\<^verbatim>\<open>!entry || now > entry.resetTime\<close>\<close>

fun no_entry_or_expired :: "int \<Rightarrow> RateLimitEntry option \<Rightarrow> bool" where
  "no_entry_or_expired now None = True"
| "no_entry_or_expired now (Some entry) = js_gt (Num now) (resetTime entry)"

text \<open>
  The result is the returned boolean, or the error thrown, together with the state of the
  module when the call ends: a throw does not undo a write made before it. The category is
  the argument after its default has been applied: a call without a category is the call
  with \<^verbatim>\<open>"default"\<close>. In the branch that increments, the entry is present, because the
  test \<^verbatim>\<open>!entry || now > entry.resetTime\<close> holds of a missing one; the case of no entry
  there is never taken.
\<close>

definition rateLimitCheck ::
  "policy_table \<Rightarrow> string \<Rightarrow> string \<Rightarrow> int \<Rightarrow> module_state \<Rightarrow> (error + bool) \<times> module_state" where
  "rateLimitCheck cfg identifier category now st0 =
     (let st = startCleanup st0;
          config = get_config cfg category;
          key = make_key category identifier;
          entry = map_of (rateLimitStore st) key
      in if no_entry_or_expired now entry then
           (case get_windowMs config of
              Inl e \<Rightarrow> (Inl e, st)
            | Inr w \<Rightarrow>
                (Inr True,
                 st\<lparr>rateLimitStore :=
                      AList.update key \<lparr>count = 1, resetTime = js_add (Num now) w\<rparr>
                        (rateLimitStore st)\<rparr>))
         else
           (case entry of
              None \<Rightarrow> (Inl TypeError, st)
            | Some e \<Rightarrow>
                (let e' = e\<lparr>count := count e + 1\<rparr>;
                     st' = st\<lparr>rateLimitStore := AList.update key e' (rateLimitStore st)\<rparr>
                 in case get_maxRequests config of
                      Inl err \<Rightarrow> (Inl err, st')
                    | Inr m \<Rightarrow> (if js_gt (Num (count e')) m then (Inr False, st')
                               else (Inr True, st')))))"

text \<open>
  \<^verbatim>\<open>getRateLimitRemaining\<close> contains no write; it returns the state it was given, so
  that it can be run in a sequence of operations.
\<close>

definition getRateLimitRemaining ::
  "policy_table \<Rightarrow> string \<Rightarrow> string \<Rightarrow> int \<Rightarrow> module_state \<Rightarrow> (error + jsval) \<times> module_state" where
  "getRateLimitRemaining cfg identifier category now st =
     (let config = get_config cfg category;
          key = make_key category identifier;
          entry = map_of (rateLimitStore st) key
      in if no_entry_or_expired now entry then (get_maxRequests config, st)
         else
           (case entry of
              None \<Rightarrow> (Inl TypeError, st)
            | Some e \<Rightarrow>
                (case get_maxRequests config of
                   Inl err \<Rightarrow> (Inl err, st)
                 | Inr m \<Rightarrow> (Inr (math_max (Num 0) (js_sub m (Num (count e)))), st))))"

subsection \<open>Sequences of calls\<close>

text \<open>
  Successive \<^verbatim>\<open>rateLimitCheck\<close> calls for one identifier and category, at the given
  clock readings; the list of their outcomes.
\<close>

fun check_sequence ::
  "policy_table \<Rightarrow> string \<Rightarrow> string \<Rightarrow> int list \<Rightarrow> module_state \<Rightarrow> (error + bool) list" where
  "check_sequence cfg identifier category [] st = []"
| "check_sequence cfg identifier category (now # later) st =
     (case rateLimitCheck cfg identifier category now st of
        (r, st') \<Rightarrow> r # check_sequence cfg identifier category later st')"

text \<open>
  Everything that can happen to the module: a call of either exported function, with any
  arguments, or the timer firing.
\<close>

datatype operation = Check string string int | Remaining string string int | Sweep int

fun apply_operation :: "policy_table \<Rightarrow> operation \<Rightarrow> module_state \<Rightarrow> module_state" where
  "apply_operation cfg (Check identifier category now) st =
     snd (rateLimitCheck cfg identifier category now st)"
| "apply_operation cfg (Remaining identifier category now) st =
     snd (getRateLimitRemaining cfg identifier category now st)"
| "apply_operation cfg (Sweep now) st = cleanup now st"

fun run :: "policy_table \<Rightarrow> operation list \<Rightarrow> module_state \<Rightarrow> module_state" where
  "run cfg [] st = st"
| "run cfg (operation # rest) st = run cfg rest (apply_operation cfg operation st)"

subsection \<open>Auxiliary notions for the proofs\<close>

text \<open>The keys that a cleanup pass over \<open>xs\<close> deletes.\<close>

definition expired_keys :: "int \<Rightarrow> (string \<times> RateLimitEntry) list \<Rightarrow> string set" where
  "expired_keys now xs =
     {key. \<exists>entry. (key, entry) \<in> set xs \<and> js_gt (Num now) (resetTime entry)}"

text \<open>The invariant of the store: every entry has counted at least one request.\<close>

definition counts_positive :: "store \<Rightarrow> bool" where
  "counts_positive s = (\<forall>(key, entry) \<in> set s. 1 \<le> count entry)"

text \<open>A policy table with a degenerate limit, to run the functions on.\<close>

definition zero_table :: policy_table where
  "zero_table = [(''none'', \<lparr>maxRequests = 0, windowMs = 1000\<rparr>)]"

section \<open>Basic facts\<close>

lemma rateLimitStore_startCleanup: "rateLimitStore (startCleanup st) = rateLimitStore st"
  by (simp add: startCleanup_def)

lemma get_config_declared: "map_of cfg category = Some p \<Longrightarrow> get_config cfg category = Policy p"
  by (simp add: get_config_def)

lemma get_config_undefined:
  "map_of cfg category = None \<Longrightarrow> category \<notin> set object_prototype_keys \<Longrightarrow>
   get_config cfg category = Undefined"
  by (simp add: get_config_def)

text \<open>Every policy of the module's table allows at least one request.\<close>

lemma declared_limits_positive:
  "map_of RATE_LIMIT_CONFIG category = Some p \<Longrightarrow> 1 \<le> maxRequests p"
  by (auto simp add: RATE_LIMIT_CONFIG_def split: if_splits)

text \<open>The two paths of \<^verbatim>\<open>rateLimitCheck\<close>, when no field read throws.\<close>

lemma rateLimitCheck_new_window:
  assumes "no_entry_or_expired now (map_of (rateLimitStore st) (make_key category identifier))"
    and "get_windowMs (get_config cfg category) = Inr w"
  shows "rateLimitCheck cfg identifier category now st =
           (Inr True,
            (startCleanup st)\<lparr>rateLimitStore :=
               AList.update (make_key category identifier)
                 \<lparr>count = 1, resetTime = js_add (Num now) w\<rparr> (rateLimitStore st)\<rparr>)"
  using assms by (simp add: rateLimitCheck_def Let_def rateLimitStore_startCleanup)

lemma rateLimitCheck_within_window:
  assumes "map_of (rateLimitStore st) (make_key category identifier) = Some e"
    and "\<not> js_gt (Num now) (resetTime e)"
    and "get_maxRequests (get_config cfg category) = Inr m"
  shows "rateLimitCheck cfg identifier category now st =
           (Inr (\<not> js_gt (Num (count e + 1)) m),
            (startCleanup st)\<lparr>rateLimitStore :=
               AList.update (make_key category identifier)
                 (e\<lparr>count := count e + 1\<rparr>) (rateLimitStore st)\<rparr>)"
  using assms by (simp add: rateLimitCheck_def Let_def rateLimitStore_startCleanup)

text \<open>\<^verbatim>\<open>getRateLimitRemaining\<close> never writes to the store.\<close>

lemma rateLimitStore_getRateLimitRemaining:
  "rateLimitStore (snd (getRateLimitRemaining cfg identifier category now st)) = rateLimitStore st"
  by (auto simp add: getRateLimitRemaining_def Let_def split: sum.splits option.splits)

text \<open>A call touches the entry under its own key only.\<close>

lemma rateLimitCheck_other_key:
  assumes "k \<noteq> make_key category identifier"
  shows "map_of (rateLimitStore (snd (rateLimitCheck cfg identifier category now st))) k =
           map_of (rateLimitStore st) k"
  using assms
  by (auto simp add: rateLimitCheck_def Let_def rateLimitStore_startCleanup update_conv'
      split: sum.splits option.splits)

section \<open>Limit enforcement\<close>

lemma check_sequence_within_window:
  assumes "map_of cfg category = Some p"
    and "map_of (rateLimitStore st) (make_key category identifier) = Some e"
    and "resetTime e = Num r"
    and "\<forall>t \<in> set later. t \<le> r"
    and "k < length later"
  shows "check_sequence cfg identifier category later st ! k =
           Inr (count e + 1 + int k \<le> maxRequests p)"
  using assms(2-5)
proof (induction later arbitrary: st e k)
  case Nil
  then show ?case by simp
next
  case (Cons now later)
  have m: "get_maxRequests (get_config cfg category) = Inr (Num (maxRequests p))"
    using assms(1) by (simp add: get_config_declared)
  have in_window: "\<not> js_gt (Num now) (resetTime e)"
    using Cons.prems by simp
  note step = rateLimitCheck_within_window [OF Cons.prems(1) in_window m]
  let ?st' = "(startCleanup st)\<lparr>rateLimitStore :=
               AList.update (make_key category identifier)
                 (e\<lparr>count := count e + 1\<rparr>) (rateLimitStore st)\<rparr>"
  show ?case
  proof (cases k)
    case 0
    then show ?thesis by (simp add: step) linarith
  next
    case (Suc j)
    have "check_sequence cfg identifier category later ?st' ! j =
            Inr (count (e\<lparr>count := count e + 1\<rparr>) + 1 + int j \<le> maxRequests p)"
    proof (rule Cons.IH)
      show "map_of (rateLimitStore ?st') (make_key category identifier) =
              Some (e\<lparr>count := count e + 1\<rparr>)"
        by (simp add: update_conv')
      show "resetTime (e\<lparr>count := count e + 1\<rparr>) = Num r"
        using Cons.prems by simp
      show "\<forall>t\<in>set later. t \<le> r" using Cons.prems by simp
      show "j < length later" using Cons.prems Suc by simp
    qed
    then show ?thesis using Suc by (simp add: step add.commute add.left_commute)
  qed
qed

text \<open>
  C1. Take a policy table in which the category has the policy \<open>p\<close>, with a limit of
  at least one request, and a state with no entry for the key of the identifier and the
  category. Let a first \<^verbatim>\<open>rateLimitCheck\<close> run at time \<open>now\<close>, followed by any number of
  further calls for the same identifier and category, none of them later than the reset
  time \<open>now + windowMs p\<close> that the first call sets. Then call number \<open>k + 1\<close> returns
  \<^verbatim>\<open>true\<close> exactly when \<open>k < maxRequests p\<close>: the first \<open>maxRequests p\<close> calls are admitted,
  the next one and all that follow in the window are refused.
\<close>

theorem limit_enforced_within_window:
  assumes "map_of cfg category = Some p"
    and "1 \<le> maxRequests p"
    and "map_of (rateLimitStore st) (make_key category identifier) = None"
    and "\<forall>t \<in> set later. t \<le> now + windowMs p"
    and "k < length (now # later)"
  shows "check_sequence cfg identifier category (now # later) st ! k =
           Inr (int k < maxRequests p)"
proof -
  have w: "get_windowMs (get_config cfg category) = Inr (Num (windowMs p))"
    using assms(1) by (simp add: get_config_declared)
  have fresh: "no_entry_or_expired now (map_of (rateLimitStore st) (make_key category identifier))"
    using assms(3) by simp
  note first = rateLimitCheck_new_window [OF fresh w]
  let ?e = "\<lparr>count = 1, resetTime = Num (now + windowMs p)\<rparr>"
  let ?st' = "(startCleanup st)\<lparr>rateLimitStore :=
               AList.update (make_key category identifier) ?e (rateLimitStore st)\<rparr>"
  show ?thesis
  proof (cases k)
    case 0
    then show ?thesis using assms(2) by (simp add: first)
  next
    case (Suc j)
    have "check_sequence cfg identifier category later ?st' ! j =
            Inr (count ?e + 1 + int j \<le> maxRequests p)"
    proof (rule check_sequence_within_window [OF assms(1)])
      show "map_of (rateLimitStore ?st') (make_key category identifier) = Some ?e"
        by (simp add: update_conv')
      show "resetTime ?e = Num (now + windowMs p)" by simp
      show "\<forall>t\<in>set later. t \<le> now + windowMs p" by (rule assms(4))
      show "j < length later" using assms(5) Suc by simp
    qed
    then show ?thesis using Suc by (simp add: first) linarith
  qed
qed

text \<open>
  The scenario of the \<^verbatim>\<open>auth\<close> category (20 requests per 15 minutes): of 22 calls made
  in one window, the 20th is admitted and the 21st and the 22nd are refused.
\<close>

theorem limit_enforced_within_window_witness:
  "map_of RATE_LIMIT_CONFIG ''auth'' = Some \<lparr>maxRequests = 20, windowMs = 900000\<rparr> \<and>
   map_of (rateLimitStore initial_state) (make_key ''auth'' ''1.2.3.4'') = None \<and>
   check_sequence RATE_LIMIT_CONFIG ''1.2.3.4'' ''auth'' (0 # replicate 21 5) initial_state ! 19
     = Inr True \<and>
   check_sequence RATE_LIMIT_CONFIG ''1.2.3.4'' ''auth'' (0 # replicate 21 5) initial_state ! 20
     = Inr False \<and>
   check_sequence RATE_LIMIT_CONFIG ''1.2.3.4'' ''auth'' (0 # replicate 21 5) initial_state ! 21
     = Inr False"
proof -
  let ?p = "\<lparr>maxRequests = 20, windowMs = 900000\<rparr>"
  have a: "map_of RATE_LIMIT_CONFIG ''auth'' = Some ?p"
    by (simp add: RATE_LIMIT_CONFIG_def)
  have b: "1 \<le> maxRequests ?p" by simp
  have c: "map_of (rateLimitStore initial_state) (make_key ''auth'' ''1.2.3.4'') = None"
    by (simp add: initial_state_def)
  have d: "\<forall>t \<in> set (replicate 21 5). t \<le> (0::int) + windowMs ?p"
    by simp
  have "check_sequence RATE_LIMIT_CONFIG ''1.2.3.4'' ''auth'' (0 # replicate 21 5) initial_state ! 19
          = Inr (int 19 < maxRequests ?p)"
    by (rule limit_enforced_within_window [OF a b c d]) simp
  moreover
  have "check_sequence RATE_LIMIT_CONFIG ''1.2.3.4'' ''auth'' (0 # replicate 21 5) initial_state ! 20
          = Inr (int 20 < maxRequests ?p)"
    by (rule limit_enforced_within_window [OF a b c d]) simp
  moreover
  have "check_sequence RATE_LIMIT_CONFIG ''1.2.3.4'' ''auth'' (0 # replicate 21 5) initial_state ! 21
          = Inr (int 21 < maxRequests ?p)"
    by (rule limit_enforced_within_window [OF a b c d]) simp
  ultimately show ?thesis
    using a c by simp
qed

section \<open>The two paths of a check\<close>

text \<open>
  C7. When the category has a policy in the table, whatever its limit, and the store has
  no entry for the key, or has one whose reset time the clock has passed, \<^verbatim>\<open>rateLimitCheck\<close>
  returns \<^verbatim>\<open>true\<close>: \<^verbatim>\<open>maxRequests\<close> plays no part, so the first request of a window is
  admitted even under a limit of zero.
\<close>

theorem new_window_always_admitted:
  assumes "map_of cfg category = Some p"
    and "map_of (rateLimitStore st) (make_key category identifier) = None \<or>
         (\<exists>e. map_of (rateLimitStore st) (make_key category identifier) = Some e \<and>
              js_gt (Num now) (resetTime e))"
  shows "fst (rateLimitCheck cfg identifier category now st) = Inr True"
proof -
  from assms(2)
  have "no_entry_or_expired now (map_of (rateLimitStore st) (make_key category identifier))"
    by auto
  moreover have "get_windowMs (get_config cfg category) = Inr (Num (windowMs p))"
    using assms(1) by (simp add: get_config_declared)
  ultimately show ?thesis
    by (simp add: rateLimitCheck_new_window)
qed

theorem new_window_always_admitted_witness:
  "map_of zero_table ''none'' = Some \<lparr>maxRequests = 0, windowMs = 1000\<rparr> \<and>
   map_of (rateLimitStore initial_state) (make_key ''none'' ''1.2.3.4'') = None \<and>
   fst (rateLimitCheck zero_table ''1.2.3.4'' ''none'' 5 initial_state) = Inr True"
  using new_window_always_admitted
    [of zero_table "''none''" "\<lparr>maxRequests = 0, windowMs = 1000\<rparr>" initial_state "''1.2.3.4''" 5]
  by (simp add: zero_table_def initial_state_def)

text \<open>
  C5. When the category has the policy \<open>p\<close> and the store holds an entry \<open>e\<close> for the key
  that is not expired (\<^verbatim>\<open>now > e.resetTime\<close> is false), \<^verbatim>\<open>rateLimitCheck\<close> stores the
  entry with its count raised by one and the reset time kept, whatever it returns; it
  returns \<^verbatim>\<open>false\<close> exactly when the raised count exceeds \<open>maxRequests p\<close>. A refused
  request is counted.
\<close>

theorem within_window_increment_retained:
  assumes "map_of cfg category = Some p"
    and "map_of (rateLimitStore st) (make_key category identifier) = Some e"
    and "\<not> js_gt (Num now) (resetTime e)"
  shows "fst (rateLimitCheck cfg identifier category now st) =
           Inr (\<not> count e + 1 > maxRequests p) \<and>
         rateLimitStore (snd (rateLimitCheck cfg identifier category now st)) =
           AList.update (make_key category identifier) (e\<lparr>count := count e + 1\<rparr>)
             (rateLimitStore st) \<and>
         map_of (rateLimitStore (snd (rateLimitCheck cfg identifier category now st)))
           (make_key category identifier) = Some (e\<lparr>count := count e + 1\<rparr>)"
proof -
  have m: "get_maxRequests (get_config cfg category) = Inr (Num (maxRequests p))"
    using assms(1) by (simp add: get_config_declared)
  note r = rateLimitCheck_within_window [OF assms(2) assms(3) m]
  show ?thesis
    by (simp add: r update_conv')
qed

theorem within_window_increment_retained_witness:
  "map_of RATE_LIMIT_CONFIG ''auth'' = Some \<lparr>maxRequests = 20, windowMs = 900000\<rparr> \<and>
   map_of [(''auth:1.2.3.4'', \<lparr>count = 20, resetTime = Num 900000\<rparr>)] (make_key ''auth'' ''1.2.3.4'') =
     Some \<lparr>count = 20, resetTime = Num 900000\<rparr> \<and>
   \<not> js_gt (Num 900000) (Num 900000) \<and>
   rateLimitCheck RATE_LIMIT_CONFIG ''1.2.3.4'' ''auth'' 900000
     \<lparr>rateLimitStore = [(''auth:1.2.3.4'', \<lparr>count = 20, resetTime = Num 900000\<rparr>)],
      cleanupTimer = True\<rparr> =
   (Inr False,
    \<lparr>rateLimitStore = [(''auth:1.2.3.4'', \<lparr>count = 21, resetTime = Num 900000\<rparr>)],
     cleanupTimer = True\<rparr>)"
proof -
  let ?e = "\<lparr>count = 20, resetTime = Num 900000\<rparr>"
  let ?st = "\<lparr>rateLimitStore = [(''auth:1.2.3.4'', ?e)], cleanupTimer = True\<rparr>"
  have a: "map_of RATE_LIMIT_CONFIG ''auth'' = Some \<lparr>maxRequests = 20, windowMs = 900000\<rparr>"
    by (simp add: RATE_LIMIT_CONFIG_def)
  have b: "map_of (rateLimitStore ?st) (make_key ''auth'' ''1.2.3.4'') = Some ?e"
    by (simp add: make_key_def)
  have c: "\<not> js_gt (Num 900000) (resetTime ?e)"
    by simp
  have t: "cleanupTimer (snd (rateLimitCheck RATE_LIMIT_CONFIG ''1.2.3.4'' ''auth'' 900000 ?st))"
    by (simp add: rateLimitCheck_def Let_def startCleanup_def make_key_def get_config_def
        RATE_LIMIT_CONFIG_def)
  show ?thesis
    using within_window_increment_retained [OF a b c] a b t
    by (simp add: make_key_def prod_eq_iff)
qed

text \<open>
  The claim C4 puts the reset at \<^verbatim>\<open>now >= resetTime\<close>. The code resets when
  \<^verbatim>\<open>now > entry.resetTime\<close>: a check made at the reset time itself still counts in the
  old window. Here the entry has count 1 and reset time 1000, the check runs at 1000, and
  the entry becomes count 2 with reset time 1000, not count 1 with reset time 901000.
\<close>

theorem reset_at_equal_time_counterexample:
  "(1000::int) \<ge> 1000 \<and>
   map_of RATE_LIMIT_CONFIG ''default'' = Some \<lparr>maxRequests = 100, windowMs = 900000\<rparr> \<and>
   rateLimitCheck RATE_LIMIT_CONFIG ''1.2.3.4'' ''default'' 1000
     \<lparr>rateLimitStore = [(''default:1.2.3.4'', \<lparr>count = 1, resetTime = Num 1000\<rparr>)],
      cleanupTimer = True\<rparr> =
   (Inr True,
    \<lparr>rateLimitStore = [(''default:1.2.3.4'', \<lparr>count = 2, resetTime = Num 1000\<rparr>)],
     cleanupTimer = True\<rparr>) \<and>
   \<lparr>count = 2, resetTime = Num 1000\<rparr> \<noteq> \<lparr>count = 1, resetTime = Num (1000 + 900000)\<rparr>"
  by (simp add: rateLimitCheck_def Let_def startCleanup_def make_key_def get_config_def
      RATE_LIMIT_CONFIG_def)

text \<open>
  C4, amended. When the category has the policy \<open>p\<close> and the store holds, for the key,
  an entry with count \<open>c\<close> and reset time \<open>r\<close>: a check at a time \<open>now > r\<close> replaces the
  entry by count 1 and reset time \<open>now + windowMs p\<close> and returns \<^verbatim>\<open>true\<close>; a check at a
  time \<open>now \<le> r\<close> keeps the reset time, raises the count to \<open>c + 1\<close>, and returns whether
  \<open>c + 1 \<le> maxRequests p\<close>.
\<close>

theorem reset_only_after_reset_time:
  assumes "map_of cfg category = Some p"
    and "map_of (rateLimitStore st) (make_key category identifier) =
           Some \<lparr>count = c, resetTime = Num r\<rparr>"
  shows "rateLimitCheck cfg identifier category now st =
           (if now > r then
              (Inr True,
               (startCleanup st)\<lparr>rateLimitStore :=
                  AList.update (make_key category identifier)
                    \<lparr>count = 1, resetTime = Num (now + windowMs p)\<rparr> (rateLimitStore st)\<rparr>)
            else
              (Inr (c + 1 \<le> maxRequests p),
               (startCleanup st)\<lparr>rateLimitStore :=
                  AList.update (make_key category identifier)
                    \<lparr>count = c + 1, resetTime = Num r\<rparr> (rateLimitStore st)\<rparr>))"
proof (cases "now > r")
  case True
  have "no_entry_or_expired now (map_of (rateLimitStore st) (make_key category identifier))"
    using True assms(2) by simp
  moreover have "get_windowMs (get_config cfg category) = Inr (Num (windowMs p))"
    using assms(1) by (simp add: get_config_declared)
  ultimately show ?thesis
    using True by (simp add: rateLimitCheck_new_window)
next
  case False
  have "\<not> js_gt (Num now) (resetTime \<lparr>count = c, resetTime = Num r\<rparr>)"
    using False by simp
  moreover have "get_maxRequests (get_config cfg category) = Inr (Num (maxRequests p))"
    using assms(1) by (simp add: get_config_declared)
  ultimately show ?thesis
    using False rateLimitCheck_within_window [OF assms(2)] by auto
qed

theorem reset_only_after_reset_time_witness:
  "map_of RATE_LIMIT_CONFIG ''default'' = Some \<lparr>maxRequests = 100, windowMs = 900000\<rparr> \<and>
   map_of [(''default:1.2.3.4'', \<lparr>count = 7, resetTime = Num 1000\<rparr>)] (make_key ''default'' ''1.2.3.4'') =
     Some \<lparr>count = 7, resetTime = Num 1000\<rparr> \<and>
   rateLimitCheck RATE_LIMIT_CONFIG ''1.2.3.4'' ''default'' 1001
     \<lparr>rateLimitStore = [(''default:1.2.3.4'', \<lparr>count = 7, resetTime = Num 1000\<rparr>)],
      cleanupTimer = True\<rparr> =
   (Inr True,
    \<lparr>rateLimitStore = [(''default:1.2.3.4'', \<lparr>count = 1, resetTime = Num 901001\<rparr>)],
     cleanupTimer = True\<rparr>)"
proof -
  let ?st = "\<lparr>rateLimitStore = [(''default:1.2.3.4'', \<lparr>count = 7, resetTime = Num 1000\<rparr>)],
      cleanupTimer = True\<rparr>"
  have a: "map_of RATE_LIMIT_CONFIG ''default'' = Some \<lparr>maxRequests = 100, windowMs = 900000\<rparr>"
    by (simp add: RATE_LIMIT_CONFIG_def)
  have b: "map_of (rateLimitStore ?st) (make_key ''default'' ''1.2.3.4'') =
     Some \<lparr>count = 7, resetTime = Num 1000\<rparr>"
    by (simp add: make_key_def)
  show ?thesis
    using reset_only_after_reset_time [OF a b, of 1001] a b
    by (simp add: make_key_def startCleanup_def)
qed

section \<open>Remaining quota\<close>

text \<open>
  C3. When the category has the policy \<open>p\<close>, \<^verbatim>\<open>getRateLimitRemaining\<close> returns
  \<open>maxRequests p\<close> if the store has no entry for the key or the entry is expired
  (\<^verbatim>\<open>now > entry.resetTime\<close>), and \<open>max 0 (maxRequests p - count)\<close> otherwise; the state of
  the module after the call is the state before it.
\<close>

theorem remaining_is_pure_read:
  assumes "map_of cfg category = Some p"
  shows "getRateLimitRemaining cfg identifier category now st =
           (Inr (Num (case map_of (rateLimitStore st) (make_key category identifier) of
                        None \<Rightarrow> maxRequests p
                      | Some e \<Rightarrow> if js_gt (Num now) (resetTime e) then maxRequests p
                                  else max 0 (maxRequests p - count e))),
            st)"
  using assms
  by (simp add: getRateLimitRemaining_def Let_def get_config_declared split: option.splits)

theorem remaining_is_pure_read_witness:
  "map_of RATE_LIMIT_CONFIG ''auth'' = Some \<lparr>maxRequests = 20, windowMs = 900000\<rparr> \<and>
   getRateLimitRemaining RATE_LIMIT_CONFIG ''1.2.3.4'' ''auth'' 7
     \<lparr>rateLimitStore = [(''auth:1.2.3.4'', \<lparr>count = 5, resetTime = Num 900000\<rparr>)],
      cleanupTimer = True\<rparr> =
   (Inr (Num 15),
    \<lparr>rateLimitStore = [(''auth:1.2.3.4'', \<lparr>count = 5, resetTime = Num 900000\<rparr>)],
     cleanupTimer = True\<rparr>)"
proof -
  have a: "map_of RATE_LIMIT_CONFIG ''auth'' = Some \<lparr>maxRequests = 20, windowMs = 900000\<rparr>"
    by (simp add: RATE_LIMIT_CONFIG_def)
  show ?thesis
    using remaining_is_pure_read [OF a, of "''1.2.3.4''" 7
        "\<lparr>rateLimitStore = [(''auth:1.2.3.4'', \<lparr>count = 5, resetTime = Num 900000\<rparr>)],
          cleanupTimer = True\<rparr>"] a
    by (simp add: make_key_def)
qed

section \<open>Categories outside the policy table\<close>

text \<open>
  The claim C2 says that a category which is not a key of the table makes
  \<^verbatim>\<open>rateLimitCheck\<close> signal an error and leave the store as it was. The composite key
  of category \<^verbatim>\<open>default:a\<close> and identifier \<^verbatim>\<open>b\<close> is the key of category \<^verbatim>\<open>default\<close>
  and identifier \<^verbatim>\<open>a:b\<close>. When that entry is in its window, the call with the undeclared
  category raises the entry's count and only then throws, on reading
  \<^verbatim>\<open>config.maxRequests\<close>.
\<close>

theorem undeclared_category_counterexample:
  "map_of RATE_LIMIT_CONFIG ''default:a'' = None \<and>
   rateLimitCheck RATE_LIMIT_CONFIG ''b'' ''default:a'' 1
     \<lparr>rateLimitStore = [(''default:a:b'', \<lparr>count = 1, resetTime = Num 900000\<rparr>)],
      cleanupTimer = True\<rparr> =
   (Inl TypeError,
    \<lparr>rateLimitStore = [(''default:a:b'', \<lparr>count = 2, resetTime = Num 900000\<rparr>)],
     cleanupTimer = True\<rparr>) \<and>
   [(''default:a:b'', \<lparr>count = 2, resetTime = Num 900000\<rparr>)] \<noteq>
   [(''default:a:b'', \<lparr>count = 1, resetTime = Num 900000\<rparr>)]"
  by (simp add: rateLimitCheck_def Let_def startCleanup_def make_key_def get_config_def
      RATE_LIMIT_CONFIG_def object_prototype_keys_def)

text \<open>
  The state of the counterexample arises from one declared call. A second way in which the
  claim fails: a category that names a property inherited from \<^verbatim>\<open>Object.prototype\<close>
  is not a key of the table either, and the call returns \<^verbatim>\<open>true\<close> and stores an entry.
\<close>

lemma colliding_entry_reachable:
  "snd (rateLimitCheck RATE_LIMIT_CONFIG ''a:b'' ''default'' 0 initial_state) =
     \<lparr>rateLimitStore = [(''default:a:b'', \<lparr>count = 1, resetTime = Num 900000\<rparr>)],
      cleanupTimer = True\<rparr>"
  by (simp add: rateLimitCheck_def Let_def startCleanup_def make_key_def get_config_def
      RATE_LIMIT_CONFIG_def initial_state_def)

lemma inherited_name_is_admitted:
  "map_of RATE_LIMIT_CONFIG ''toString'' = None \<and>
   rateLimitCheck RATE_LIMIT_CONFIG ''1.2.3.4'' ''toString'' 0 initial_state =
     (Inr True,
      \<lparr>rateLimitStore = [(''toString:1.2.3.4'', \<lparr>count = 1, resetTime = NaN\<rparr>)],
       cleanupTimer = True\<rparr>)"
  by (simp add: rateLimitCheck_def Let_def startCleanup_def make_key_def get_config_def
      RATE_LIMIT_CONFIG_def initial_state_def object_prototype_keys_def)

text \<open>
  C2, amended. When the category is neither a key of the table nor a property name
  inherited from \<^verbatim>\<open>Object.prototype\<close>, so that \<^verbatim>\<open>RATE_LIMIT_CONFIG[category]\<close> is
  \<^verbatim>\<open>undefined\<close>, \<^verbatim>\<open>rateLimitCheck\<close> throws a TypeError instead of returning a boolean;
  and when the store has no entry under the composite key, or has an expired one, the
  store after the call is the store before it.
\<close>

theorem undeclared_category_throws:
  assumes "map_of cfg category = None"
    and "category \<notin> set object_prototype_keys"
  shows "fst (rateLimitCheck cfg identifier category now st) = Inl TypeError \<and>
         (no_entry_or_expired now (map_of (rateLimitStore st) (make_key category identifier)) \<longrightarrow>
            rateLimitStore (snd (rateLimitCheck cfg identifier category now st)) = rateLimitStore st)"
  using assms
  by (auto simp add: rateLimitCheck_def Let_def get_config_undefined rateLimitStore_startCleanup
      split: option.splits)

theorem undeclared_category_throws_witness:
  "map_of RATE_LIMIT_CONFIG ''payments'' = None \<and>
   ''payments'' \<notin> set object_prototype_keys \<and>
   no_entry_or_expired 3 (map_of (rateLimitStore initial_state) (make_key ''payments'' ''1.2.3.4'')) \<and>
   fst (rateLimitCheck RATE_LIMIT_CONFIG ''1.2.3.4'' ''payments'' 3 initial_state) = Inl TypeError \<and>
   rateLimitStore (snd (rateLimitCheck RATE_LIMIT_CONFIG ''1.2.3.4'' ''payments'' 3 initial_state)) = []"
proof -
  have a: "map_of RATE_LIMIT_CONFIG ''payments'' = None"
    by (simp add: RATE_LIMIT_CONFIG_def)
  have b: "''payments'' \<notin> set object_prototype_keys"
    by (simp add: object_prototype_keys_def)
  have c: "no_entry_or_expired 3 (map_of (rateLimitStore initial_state) (make_key ''payments'' ''1.2.3.4''))"
    by (simp add: initial_state_def)
  show ?thesis
    using undeclared_category_throws [OF a b, of "''1.2.3.4''" 3 initial_state] a b c
    by (simp add: initial_state_def)
qed

section \<open>Independence of keys\<close>

lemma takeWhile_key:
  "CHR '':'' \<notin> set category \<Longrightarrow>
   takeWhile (\<lambda>c. c \<noteq> CHR '':'') (make_key category identifier) = category"
  by (simp add: make_key_def takeWhile_append)

lemma dropWhile_key:
  "CHR '':'' \<notin> set category \<Longrightarrow>
   dropWhile (\<lambda>c. c \<noteq> CHR '':'') (make_key category identifier) = CHR '':'' # identifier"
  by (simp add: make_key_def dropWhile_append)

lemma make_key_inj:
  assumes "CHR '':'' \<notin> set category1" and "CHR '':'' \<notin> set category2"
    and "make_key category1 identifier1 = make_key category2 identifier2"
  shows "category1 = category2 \<and> identifier1 = identifier2"
proof -
  have "category1 = category2"
    using takeWhile_key [OF assms(1), of identifier1] takeWhile_key [OF assms(2), of identifier2]
      assms(3) by simp
  moreover have "CHR '':'' # identifier1 = CHR '':'' # identifier2"
    using dropWhile_key [OF assms(1), of identifier1] dropWhile_key [OF assms(2), of identifier2]
      assms(3) by simp
  ultimately show ?thesis by simp
qed

lemma declared_category_no_colon:
  "map_of RATE_LIMIT_CONFIG category = Some p \<Longrightarrow> CHR '':'' \<notin> set category"
  by (auto simp add: RATE_LIMIT_CONFIG_def split: if_splits)

text \<open>
  C6. For two different pairs of a category and an identifier, both categories being keys
  of \<open>RATE_LIMIT_CONFIG\<close>, the composite keys are different, and a \<^verbatim>\<open>rateLimitCheck\<close> for
  the first pair leaves the entry of the second pair (present or absent) as it was.
\<close>

theorem distinct_pairs_independent:
  assumes "map_of RATE_LIMIT_CONFIG category1 = Some p1"
    and "map_of RATE_LIMIT_CONFIG category2 = Some p2"
    and "(category1, identifier1) \<noteq> (category2, identifier2)"
  shows "make_key category1 identifier1 \<noteq> make_key category2 identifier2 \<and>
         map_of (rateLimitStore (snd (rateLimitCheck RATE_LIMIT_CONFIG identifier1 category1 now st)))
           (make_key category2 identifier2) =
         map_of (rateLimitStore st) (make_key category2 identifier2)"
proof -
  have ne: "make_key category2 identifier2 \<noteq> make_key category1 identifier1"
    using make_key_inj [OF declared_category_no_colon [OF assms(2)]
        declared_category_no_colon [OF assms(1)], of identifier2 identifier1] assms(3)
    by auto
  then show ?thesis
    using rateLimitCheck_other_key [OF ne] by simp
qed

theorem distinct_pairs_independent_witness:
  "map_of RATE_LIMIT_CONFIG ''auth'' = Some \<lparr>maxRequests = 20, windowMs = 900000\<rparr> \<and>
   map_of RATE_LIMIT_CONFIG ''default'' = Some \<lparr>maxRequests = 100, windowMs = 900000\<rparr> \<and>
   (''auth'', ''1.2.3.4'') \<noteq> (''default'', ''1.2.3.4'') \<and>
   make_key ''auth'' ''1.2.3.4'' \<noteq> make_key ''default'' ''1.2.3.4'' \<and>
   map_of (rateLimitStore (snd (rateLimitCheck RATE_LIMIT_CONFIG ''1.2.3.4'' ''auth'' 7
       \<lparr>rateLimitStore = [(''default:1.2.3.4'', \<lparr>count = 3, resetTime = Num 50\<rparr>)],
        cleanupTimer = True\<rparr>)))
     (make_key ''default'' ''1.2.3.4'') = Some \<lparr>count = 3, resetTime = Num 50\<rparr>"
proof -
  have a: "map_of RATE_LIMIT_CONFIG ''auth'' = Some \<lparr>maxRequests = 20, windowMs = 900000\<rparr>"
    by (simp add: RATE_LIMIT_CONFIG_def)
  have d: "map_of RATE_LIMIT_CONFIG ''default'' = Some \<lparr>maxRequests = 100, windowMs = 900000\<rparr>"
    by (simp add: RATE_LIMIT_CONFIG_def)
  have ne: "(''auth'', ''1.2.3.4'') \<noteq> (''default'', ''1.2.3.4'')"
    by simp
  show ?thesis
    using distinct_pairs_independent [OF a d ne, of 7
        "\<lparr>rateLimitStore = [(''default:1.2.3.4'', \<lparr>count = 3, resetTime = Num 50\<rparr>)],
          cleanupTimer = True\<rparr>"] a d
    by (simp add: make_key_def)
qed

section \<open>Cleanup of expired entries\<close>

lemma expired_keys_Cons:
  "expired_keys now ((key, entry) # rest) =
     (if js_gt (Num now) (resetTime entry) then insert key (expired_keys now rest)
      else expired_keys now rest)"
  by (auto simp add: expired_keys_def)

lemma cleanup_loop_filter_keys:
  "cleanup_loop now xs s = filter (\<lambda>(key, entry). key \<notin> expired_keys now xs) s"
proof (induction xs arbitrary: s)
  case Nil
  then show ?case by (simp add: expired_keys_def)
next
  case (Cons x xs)
  obtain key entry where x: "x = (key, entry)" by (cases x)
  show ?case
    by (auto simp add: x Cons.IH expired_keys_Cons AList.delete_eq case_prod_unfold
        intro: filter_cong)
qed

lemma cleanup_loop_filter:
  assumes "distinct (map fst s)"
  shows "cleanup_loop now s s = filter (\<lambda>(key, entry). \<not> js_gt (Num now) (resetTime entry)) s"
proof -
  have "(key \<in> expired_keys now s) = js_gt (Num now) (resetTime entry)"
    if "(key, entry) \<in> set s" for key entry
  proof
    assume "key \<in> expired_keys now s"
    then obtain entry' where e': "(key, entry') \<in> set s" "js_gt (Num now) (resetTime entry')"
      by (auto simp add: expired_keys_def)
    have "entry' = entry"
      using assms e'(1) that by (meson eq_key_imp_eq_value)
    then show "js_gt (Num now) (resetTime entry)" using e'(2) by simp
  next
    assume "js_gt (Num now) (resetTime entry)"
    then show "key \<in> expired_keys now s" using that by (auto simp add: expired_keys_def)
  qed
  then have "filter (\<lambda>(key, entry). key \<notin> expired_keys now s) s =
             filter (\<lambda>(key, entry). \<not> js_gt (Num now) (resetTime entry)) s"
    by (intro filter_cong) auto
  then show ?thesis by (simp add: cleanup_loop_filter_keys)
qed

text \<open>
  C8. On a store in which every key occurs once, as in a \<^verbatim>\<open>Map\<close>, one cleanup pass at
  time \<open>t\<close> leaves exactly the entries for which \<^verbatim>\<open>t > entry.resetTime\<close> is false, each
  unchanged and in its place; a second pass at the same time changes nothing.
\<close>

theorem sweep_deletes_expired_idempotent:
  assumes "distinct (map fst (rateLimitStore st))"
  shows "rateLimitStore (cleanup t st) =
           filter (\<lambda>(key, entry). \<not> js_gt (Num t) (resetTime entry)) (rateLimitStore st) \<and>
         cleanup t (cleanup t st) = cleanup t st"
proof -
  let ?keep = "\<lambda>(key, entry). \<not> js_gt (Num t) (resetTime (entry :: RateLimitEntry))"
  have first: "rateLimitStore (cleanup t st) = filter ?keep (rateLimitStore st)"
    using assms by (simp add: cleanup_def cleanup_loop_filter)
  have "distinct (map fst (filter ?keep (rateLimitStore st)))"
    using assms by (rule distinct_map_filter)
  then have "cleanup_loop t (filter ?keep (rateLimitStore st)) (filter ?keep (rateLimitStore st)) =
             filter ?keep (filter ?keep (rateLimitStore st))"
    by (rule cleanup_loop_filter)
  then have "cleanup t (cleanup t st) = cleanup t st"
    using first by (simp add: cleanup_def)
  with first show ?thesis by simp
qed

theorem sweep_deletes_expired_idempotent_witness:
  "distinct (map fst [(''auth:a'', \<lparr>count = 1, resetTime = Num 10\<rparr>),
                      (''auth:b'', \<lparr>count = 2, resetTime = Num 100\<rparr>)]) \<and>
   rateLimitStore (cleanup 50
     \<lparr>rateLimitStore = [(''auth:a'', \<lparr>count = 1, resetTime = Num 10\<rparr>),
                        (''auth:b'', \<lparr>count = 2, resetTime = Num 100\<rparr>)],
      cleanupTimer = True\<rparr>) = [(''auth:b'', \<lparr>count = 2, resetTime = Num 100\<rparr>)] \<and>
   cleanup 50 (cleanup 50
     \<lparr>rateLimitStore = [(''auth:a'', \<lparr>count = 1, resetTime = Num 10\<rparr>),
                        (''auth:b'', \<lparr>count = 2, resetTime = Num 100\<rparr>)],
      cleanupTimer = True\<rparr>) =
   cleanup 50
     \<lparr>rateLimitStore = [(''auth:a'', \<lparr>count = 1, resetTime = Num 10\<rparr>),
                        (''auth:b'', \<lparr>count = 2, resetTime = Num 100\<rparr>)],
      cleanupTimer = True\<rparr>"
proof -
  let ?st = "\<lparr>rateLimitStore = [(''auth:a'', \<lparr>count = 1, resetTime = Num 10\<rparr>),
                        (''auth:b'', \<lparr>count = 2, resetTime = Num 100\<rparr>)],
      cleanupTimer = True\<rparr>"
  have d: "distinct (map fst (rateLimitStore ?st))" by simp
  show ?thesis
    using sweep_deletes_expired_idempotent [OF d, of 50] by simp
qed

text \<open>Every operation keeps the keys of the store distinct, so the cleanup always runs
  on such a store.\<close>

lemma distinct_keys_rateLimitCheck:
  "distinct (map fst (rateLimitStore st)) \<Longrightarrow>
   distinct (map fst (rateLimitStore (snd (rateLimitCheck cfg identifier category now st))))"
  by (auto simp add: rateLimitCheck_def Let_def rateLimitStore_startCleanup distinct_update
      split: sum.splits option.splits)

lemma distinct_keys_cleanup:
  "distinct (map fst (rateLimitStore st)) \<Longrightarrow> distinct (map fst (rateLimitStore (cleanup now st)))"
  by (simp add: cleanup_def cleanup_loop_filter_keys distinct_map_filter)

lemma distinct_keys_run:
  "distinct (map fst (rateLimitStore st)) \<Longrightarrow> distinct (map fst (rateLimitStore (run cfg ops st)))"
proof (induction ops arbitrary: st)
  case Nil
  then show ?case by simp
next
  case (Cons operation ops)
  have "distinct (map fst (rateLimitStore (apply_operation cfg operation st)))"
    using Cons.prems
    by (cases operation)
      (simp_all add: distinct_keys_rateLimitCheck rateLimitStore_getRateLimitRemaining
        distinct_keys_cleanup)
  then show ?case by (simp add: Cons.IH)
qed

lemma reachable_keys_distinct:
  "distinct (map fst (rateLimitStore (run cfg ops initial_state)))"
  by (rule distinct_keys_run) (simp add: initial_state_def)

section \<open>The invariant of the store\<close>

lemma set_update_subset: "set (AList.update k v al) \<subseteq> insert (k, v) (set al)"
  by (induction al) auto

lemma counts_positive_update:
  "counts_positive s \<Longrightarrow> 1 \<le> count v \<Longrightarrow> counts_positive (AList.update k v s)"
  using set_update_subset [of k v s] by (auto simp add: counts_positive_def)

lemma counts_positive_lookup:
  "counts_positive s \<Longrightarrow> map_of s k = Some e \<Longrightarrow> 1 \<le> count e"
  by (auto simp add: counts_positive_def dest: map_of_SomeD)

lemma counts_positive_rateLimitCheck:
  assumes "counts_positive (rateLimitStore st)"
  shows "counts_positive (rateLimitStore (snd (rateLimitCheck cfg identifier category now st)))"
proof (cases "no_entry_or_expired now (map_of (rateLimitStore st) (make_key category identifier))")
  case True
  then show ?thesis
    using assms
    by (auto simp add: rateLimitCheck_def Let_def rateLimitStore_startCleanup
        counts_positive_update split: sum.splits)
next
  case False
  then obtain e where e: "map_of (rateLimitStore st) (make_key category identifier) = Some e"
    by (cases "map_of (rateLimitStore st) (make_key category identifier)") auto
  have "1 \<le> count (e\<lparr>count := count e + 1\<rparr>)"
    using counts_positive_lookup [OF assms e] by simp
  then have "counts_positive (AList.update (make_key category identifier)
               (e\<lparr>count := count e + 1\<rparr>) (rateLimitStore st))"
    using assms by (simp add: counts_positive_update)
  then show ?thesis
    using False e
    by (auto simp add: rateLimitCheck_def Let_def rateLimitStore_startCleanup split: sum.splits)
qed

lemma counts_positive_cleanup:
  "counts_positive (rateLimitStore st) \<Longrightarrow> counts_positive (rateLimitStore (cleanup now st))"
  by (auto simp add: cleanup_def cleanup_loop_filter_keys counts_positive_def)

lemma counts_positive_apply_operation:
  "counts_positive (rateLimitStore st) \<Longrightarrow>
   counts_positive (rateLimitStore (apply_operation cfg operation st))"
  by (cases operation)
    (simp_all add: counts_positive_rateLimitCheck rateLimitStore_getRateLimitRemaining
      counts_positive_cleanup)

lemma counts_positive_run:
  "counts_positive (rateLimitStore st) \<Longrightarrow> counts_positive (rateLimitStore (run cfg ops st))"
  by (induction ops arbitrary: st) (simp_all add: counts_positive_apply_operation)

text \<open>
  C10. In every state reached from the initial state (empty store) by a sequence of
  \<^verbatim>\<open>rateLimitCheck\<close> calls, \<^verbatim>\<open>getRateLimitRemaining\<close> calls and cleanup passes, with any
  arguments and clock readings, every entry of the store has a count of at least 1.
\<close>

theorem reachable_counts_positive:
  assumes "(key, entry) \<in> set (rateLimitStore (run cfg ops initial_state))"
  shows "1 \<le> count entry"
proof -
  have "counts_positive (rateLimitStore initial_state)"
    by (simp add: counts_positive_def initial_state_def)
  then have "counts_positive (rateLimitStore (run cfg ops initial_state))"
    by (rule counts_positive_run)
  with assms show ?thesis
    by (auto simp add: counts_positive_def)
qed

theorem reachable_counts_positive_witness:
  "(''default:a:b'', \<lparr>count = 2, resetTime = Num 1800002\<rparr>) \<in>
     set (rateLimitStore (run RATE_LIMIT_CONFIG
       [Check ''a'' ''auth'' 0, Check ''a'' ''auth'' 5, Remaining ''a'' ''auth'' 6,
        Check ''b'' ''auth'' 10, Sweep 900001, Check ''a:b'' ''default'' 900002,
        Check ''b'' ''default:a'' 900003] initial_state)) \<and>
   1 \<le> count \<lparr>count = 2, resetTime = Num 1800002\<rparr>"
proof -
  have m: "(''default:a:b'', \<lparr>count = 2, resetTime = Num 1800002\<rparr>) \<in>
     set (rateLimitStore (run RATE_LIMIT_CONFIG
       [Check ''a'' ''auth'' 0, Check ''a'' ''auth'' 5, Remaining ''a'' ''auth'' 6,
        Check ''b'' ''auth'' 10, Sweep 900001, Check ''a:b'' ''default'' 900002,
        Check ''b'' ''default:a'' 900003] initial_state))"
    by (simp add: rateLimitCheck_def getRateLimitRemaining_def cleanup_def Let_def
        startCleanup_def make_key_def get_config_def RATE_LIMIT_CONFIG_def initial_state_def
        object_prototype_keys_def)
  show ?thesis
    using reachable_counts_positive [OF m] m by simp
qed

end
